theory Spec2Isabelle
  imports Main "HOL-Library.Word"
begin

unbundle bit_operations_syntax

section \<open>Machine types, results and system constants\<close>

text \<open>
  The server is C++ on Linux/x86-64: \<open>size_t\<close> is an unsigned and \<open>ssize_t\<close> a signed
  64-bit integer.  Both are 64-bit words here; an \<open>ssize_t\<close> is read with \<open>sint\<close> and
  compared with \<open><s\<close>, a \<open>size_t\<close> is read with \<open>unat\<close> and compared with \<open><\<close>.
  The C \<open>int\<close> values of the program (file descriptors, flags, return codes) take part in
  no arithmetic that could overflow and are HOL integers.
\<close>

type_synonym byte = "8 word"
type_synonym size_t = "64 word"
type_synonym ssize_t = "64 word"

text \<open>
  A call either returns or ends the process: \<open>exit(EXIT_FAILURE)\<close> is the value
  \<open>Inl (Exit EXIT_FAILURE)\<close>.  A memory access outside the object it addresses is the
  value \<open>Inl OutOfBounds\<close>.  Output to \<open>stdout\<close> and \<open>stderr\<close> is not modelled.
\<close>

datatype error = Exit int | OutOfBounds

definition EXIT_FAILURE :: int where
  "EXIT_FAILURE = 1"

definition EAGAIN :: int where
  "EAGAIN = 11"

section \<open>ChunkedDataSender.cpp\<close>

subsection \<open>Memory accesses\<close>

text \<open>
  \<open>read_bytes src off n\<close> reads the \<open>n\<close> bytes of \<open>src\<close> at the indices
  \<open>off, ..., off + n - 1\<close>, one at a time; it fails when one of them is outside \<open>src\<close>.
  \<open>memcpy dest src off n\<close> is \<open>memcpy(dest, src + off, n)\<close>: it overwrites the first
  \<open>n\<close> bytes of \<open>dest\<close> and fails when \<open>dest\<close> is shorter than \<open>n\<close> or the read
  fails.
\<close>

definition read_bytes :: "byte list \<Rightarrow> nat \<Rightarrow> nat \<Rightarrow> byte list option" where
  "read_bytes src off n =
     (if off + n \<le> length src then Some (map (\<lambda>i. src ! i) [off ..< off + n]) else None)"

definition memcpy :: "byte list \<Rightarrow> byte list \<Rightarrow> nat \<Rightarrow> nat \<Rightarrow> byte list option" where
  "memcpy dest src off n =
     (if n \<le> length dest
      then (case read_bytes src off n of
              None \<Rightarrow> None
            | Some bs \<Rightarrow> Some (bs @ drop n dest))
      else None)"

subsection \<open>The sender and its constructor\<close>

record ArraySender =
  array :: "byte list"
  array_length :: size_t
  curr_loc :: size_t

text \<open>
  \<open>ArraySender::ArraySender(array_to_send, length)\<close> allocates \<open>length\<close> bytes, copies
  \<open>array_to_send[0 .. length)\<close> into them and sets the cursor to 0.  The caller's buffer is
  the list \<open>array_to_send\<close>; copying more bytes than it holds reads outside it.  Failure of
  the allocation is not modelled.
\<close>

definition ArraySender_ctor :: "byte list \<Rightarrow> size_t \<Rightarrow> error + ArraySender" where
  "ArraySender_ctor array_to_send len =
     (case read_bytes array_to_send 0 (unat len) of
        None \<Rightarrow> Inl OutOfBounds
      | Some bs \<Rightarrow> Inr \<lparr>array = bs, array_length = len, curr_loc = 0\<rparr>)"

subsection \<open>The transport\<close>

text \<open>
  \<open>send(sock_fd, buf, len, 0)\<close> is a system call.  Its effect on the world outside the
  process is a function of a world state \<open>'w\<close>; what the program sees of it is the value
  returned and the value of \<open>errno\<close> after the call.
\<close>

record send_reply =
  ret :: ssize_t
  errno :: int

type_synonym 'w send_fn = "'w \<Rightarrow> int \<Rightarrow> byte list \<Rightarrow> size_t \<Rightarrow> send_reply \<times> 'w"

subsection \<open>\<open>ArraySender::send_next_chunk\<close>\<close>

text \<open>
  The constant \<open>CHUNK_SIZE\<close> is declared in \<open>ChunkedDataSender.h\<close>, which is not among the
  sources; it is the first parameter of every function that uses it.  The local variables
  of the function are functions of the sender: \<open>num_bytes_remaining\<close> and
  \<open>bytes_in_chunk\<close> (lines 23 and 24) and the buffer \<open>chunk\<close> after the \<open>memcpy\<close>
  (lines 29 and 30).  The buffer is \<open>CHUNK_SIZE\<close> bytes on the stack, uninitialised in the
  source and zero-filled here.
\<close>

definition num_bytes_remaining :: "ArraySender \<Rightarrow> size_t" where
  "num_bytes_remaining this = array_length this - curr_loc this"

definition bytes_in_chunk :: "size_t \<Rightarrow> ArraySender \<Rightarrow> size_t" where
  "bytes_in_chunk CHUNK_SIZE this = min (num_bytes_remaining this) CHUNK_SIZE"

definition chunk :: "size_t \<Rightarrow> ArraySender \<Rightarrow> byte list option" where
  "chunk CHUNK_SIZE this =
     memcpy (replicate (unat CHUNK_SIZE) 0) (array this) (unat (curr_loc this))
       (unat (bytes_in_chunk CHUNK_SIZE this))"

definition send_next_chunk ::
  "size_t \<Rightarrow> 'w send_fn \<Rightarrow> ArraySender \<Rightarrow> int \<Rightarrow> 'w \<Rightarrow> error + (ssize_t \<times> ArraySender \<times> 'w)"
where
  "send_next_chunk CHUNK_SIZE send this sock_fd w =
     (if bytes_in_chunk CHUNK_SIZE this > 0 then
        (case chunk CHUNK_SIZE this of
           None \<Rightarrow> Inl OutOfBounds
         | Some buf \<Rightarrow>
             (let (reply, w') = send w sock_fd buf (bytes_in_chunk CHUNK_SIZE this);
                  num_bytes_sent = ret reply
              in if 0 <s num_bytes_sent then
                   Inr (num_bytes_sent,
                        this\<lparr>curr_loc := curr_loc this + num_bytes_sent\<rparr>, w')
                 else if num_bytes_sent <s 0 \<and> errno reply = EAGAIN then
                   Inr (- 1, this, w')
                 else Inl (Exit EXIT_FAILURE)))
      else Inr (0, this, w))"

text \<open>
  \<open>send_chunks n\<close> is a caller that invokes \<open>send_next_chunk\<close> \<open>n\<close> times in a row on the
  same sender and socket and collects the values returned, oldest first.  It stops when a
  call ends the process.
\<close>

fun send_chunks ::
  "nat \<Rightarrow> size_t \<Rightarrow> 'w send_fn \<Rightarrow> ArraySender \<Rightarrow> int \<Rightarrow> 'w
     \<Rightarrow> error + (ssize_t list \<times> ArraySender \<times> 'w)"
where
  "send_chunks 0 CHUNK_SIZE send this sock_fd w = Inr ([], this, w)"
| "send_chunks (Suc n) CHUNK_SIZE send this sock_fd w =
     (case send_next_chunk CHUNK_SIZE send this sock_fd w of
        Inl e \<Rightarrow> Inl e
      | Inr (r, this', w') \<Rightarrow>
          (case send_chunks n CHUNK_SIZE send this' sock_fd w' of
             Inl e \<Rightarrow> Inl e
           | Inr (rs, this'', w'') \<Rightarrow> Inr (r # rs, this'', w'')))"

section \<open>jukebox-server.cpp\<close>

text \<open>
  The part of the server modelled is \<open>event_loop\<close> with the functions it calls:
  \<open>accept_connection\<close>, \<open>set_non_blocking\<close> and \<open>setup_new_client\<close>.  The bootstrap
  (\<open>main\<close>, \<open>setup_server_socket\<close>) and the directory scan (\<open>find_mp3_files\<close>) run
  before the loop starts and are left out.
\<close>

subsection \<open>Constants and events\<close>

text \<open>
  \<open>MAX_EVENTS\<close> is the source's; the others are the values of the Linux headers
  \<open>sys/epoll.h\<close> and \<open>fcntl.h\<close>.  An \<open>epoll_event\<close> carries the 32-bit mask
  \<open>events\<close> and the descriptor \<open>data.fd\<close>.
\<close>

definition MAX_EVENTS :: int where
  "MAX_EVENTS = 64"

definition EPOLLIN :: "32 word" where
  "EPOLLIN = 0x001"

definition EPOLLOUT :: "32 word" where
  "EPOLLOUT = 0x004"

definition EPOLLRDHUP :: "32 word" where
  "EPOLLRDHUP = 0x2000"

definition EPOLL_CTL_ADD :: int where
  "EPOLL_CTL_ADD = 1"

definition O_NONBLOCK :: int where
  "O_NONBLOCK = 2048"

record epoll_event =
  events :: "32 word"
  data_fd :: int

subsection \<open>What the loop is given\<close>

text \<open>
  Modelled from the spec: the enumeration of connection modes is declared in
  \<open>ConnectedClient.h\<close>, which is not among the sources; the source names \<open>RECEIVING\<close>
  only, the specification (section 3) gives the modes RECEIVING, SENDING and CLOSING.
\<close>

datatype ClientState = RECEIVING | SENDING | CLOSING

text \<open>
  The class \<open>ConnectedClient\<close> (\<open>ConnectedClient.h\<close>, \<open>ConnectedClient.cpp\<close>) is not
  among the sources either.  The loop is therefore a function of it: the type \<open>'c\<close> of
  its objects, its default constructor (used by \<open>operator[]\<close> of \<open>std::map\<close>), its
  constructor from a descriptor and a mode, and its methods \<open>handle_close\<close> and
  \<open>handle_input\<close>.  A method gets the object and \<open>epoll_fd\<close>; it may change the object
  and the world outside the process, or end the process, and it cannot reach the table
  \<open>clients\<close>, a local variable of \<open>event_loop\<close>.  The system calls of the loop are
  fields of the same record: each maps the world \<open>'w\<close> to the value returned and the
  new world.
\<close>

record ('c, 'w) env =
  ConnectedClient_default :: 'c
  ConnectedClient_new :: "int \<Rightarrow> ClientState \<Rightarrow> 'c"
  handle_close :: "'c \<Rightarrow> int \<Rightarrow> 'w \<Rightarrow> error + ('c \<times> 'w)"
  handle_input :: "'c \<Rightarrow> int \<Rightarrow> 'w \<Rightarrow> error + ('c \<times> 'w)"
  accept :: "'w \<Rightarrow> int \<Rightarrow> int \<times> 'w"
  fcntl_getfl :: "'w \<Rightarrow> int \<Rightarrow> int \<times> 'w"
  fcntl_setfl :: "'w \<Rightarrow> int \<Rightarrow> int \<Rightarrow> int \<times> 'w"
  epoll_ctl :: "'w \<Rightarrow> int \<Rightarrow> int \<Rightarrow> int \<Rightarrow> epoll_event \<Rightarrow> int \<times> 'w"
  epoll_wait :: "'w \<Rightarrow> int \<Rightarrow> int \<Rightarrow> (int \<times> epoll_event list) \<times> 'w"

subsection \<open>Accepting a client\<close>

definition accept_connection :: "('c, 'w) env \<Rightarrow> int \<Rightarrow> 'w \<Rightarrow> error + (int \<times> 'w)" where
  "accept_connection env server_socket w =
     (let (new_fd, w') = accept env w server_socket
      in if new_fd < 0 then Inl (Exit EXIT_FAILURE) else Inr (new_fd, w'))"

definition set_non_blocking :: "('c, 'w) env \<Rightarrow> int \<Rightarrow> 'w \<Rightarrow> error + 'w" where
  "set_non_blocking env sock w =
     (let (socket_flags, w1) = fcntl_getfl env w sock
      in if socket_flags < 0 then Inl (Exit EXIT_FAILURE)
         else (let socket_flags = socket_flags OR O_NONBLOCK;
                   (result, w2) = fcntl_setfl env w1 sock socket_flags
               in if result < 0 then Inl (Exit EXIT_FAILURE) else Inr w2))"

definition setup_new_client ::
  "('c, 'w) env \<Rightarrow> int \<Rightarrow> (int \<rightharpoonup> 'c) \<Rightarrow> int \<Rightarrow> 'w \<Rightarrow> error + ((int \<rightharpoonup> 'c) \<times> 'w)"
where
  "setup_new_client env server_socket clients epoll_fd w =
     (case accept_connection env server_socket w of
        Inl e \<Rightarrow> Inl e
      | Inr (client_fd, w1) \<Rightarrow>
          if clients client_fd \<noteq> None then Inl (Exit EXIT_FAILURE)
          else (case set_non_blocking env client_fd w1 of
                  Inl e \<Rightarrow> Inl e
                | Inr w2 \<Rightarrow>
                    (let new_client_ev = \<lparr>events = EPOLLIN OR EPOLLRDHUP, data_fd = client_fd\<rparr>;
                         (r, w3) = epoll_ctl env w2 epoll_fd EPOLL_CTL_ADD client_fd new_client_ev
                     in if r = - 1 then Inl (Exit EXIT_FAILURE)
                        else (let cc = ConnectedClient_new env client_fd RECEIVING
                              in Inr (clients(client_fd \<mapsto> cc), w3)))))"

subsection \<open>The table of clients\<close>

text \<open>
  \<open>clients\<close> is a \<open>std::map<int, ConnectedClient>\<close>, here a map from descriptors to
  objects.  \<open>subscript\<close> is its \<open>operator[]\<close>: a key that is absent is inserted with a
  default-constructed object first.  \<open>erase\<close> removes a key and does nothing when the
  key is absent.
\<close>

definition subscript :: "('c, 'w) env \<Rightarrow> (int \<rightharpoonup> 'c) \<Rightarrow> int \<Rightarrow> 'c \<times> (int \<rightharpoonup> 'c)" where
  "subscript env clients k =
     (case clients k of
        Some c \<Rightarrow> (c, clients)
      | None \<Rightarrow> (ConnectedClient_default env, clients(k \<mapsto> ConnectedClient_default env)))"

definition erase :: "(int \<rightharpoonup> 'c) \<Rightarrow> int \<Rightarrow> (int \<rightharpoonup> 'c)" where
  "erase clients k = clients(k := None)"

subsection \<open>\<open>event_loop\<close>\<close>

text \<open>
  \<open>handle_event\<close> is the body of the \<open>for\<close> loop (lines 304 to 347) on the table and
  the world: the hang-up branch, else the input branch, and then the output branch, whose
  body in the source is a comment.  \<open>handle_events\<close> is the \<open>for\<close> loop over the events
  of one \<open>epoll_wait\<close>.  The outer \<open>while (true)\<close> has no exit but the end of the
  process: \<open>event_loop n\<close> runs its first \<open>n\<close> iterations from the empty table and
  returns the table and world reached, or the error that ended the process.
\<close>

fun handle_event ::
  "('c, 'w) env \<Rightarrow> int \<Rightarrow> int \<Rightarrow> (int \<rightharpoonup> 'c) \<times> 'w \<Rightarrow> epoll_event
     \<Rightarrow> error + ((int \<rightharpoonup> 'c) \<times> 'w)"
where
  "handle_event env epoll_fd server_socket (clients, w) ev =
     (case
        (if events ev AND EPOLLRDHUP \<noteq> 0 then
           (let (c, clients1) = subscript env clients (data_fd ev)
            in case handle_close env c epoll_fd w of
                 Inl e \<Rightarrow> Inl e
               | Inr (c', w') \<Rightarrow> Inr (erase (clients1(data_fd ev \<mapsto> c')) (data_fd ev), w'))
         else if events ev AND EPOLLIN \<noteq> 0 then
           (if data_fd ev = server_socket then
              setup_new_client env server_socket clients epoll_fd w
            else
              (let (c, clients1) = subscript env clients (data_fd ev)
               in case handle_input env c epoll_fd w of
                    Inl e \<Rightarrow> Inl e
                  | Inr (c', w') \<Rightarrow> Inr (clients1(data_fd ev \<mapsto> c'), w')))
         else Inr (clients, w))
      of
        Inl e \<Rightarrow> Inl e
      | Inr st \<Rightarrow> (if events ev AND EPOLLOUT \<noteq> 0 then Inr st else Inr st))"

fun handle_events ::
  "('c, 'w) env \<Rightarrow> int \<Rightarrow> int \<Rightarrow> (int \<rightharpoonup> 'c) \<times> 'w \<Rightarrow> epoll_event list
     \<Rightarrow> error + ((int \<rightharpoonup> 'c) \<times> 'w)"
where
  "handle_events env epoll_fd server_socket st [] = Inr st"
| "handle_events env epoll_fd server_socket st (ev # evs) =
     (case handle_event env epoll_fd server_socket st ev of
        Inl e \<Rightarrow> Inl e
      | Inr st' \<Rightarrow> handle_events env epoll_fd server_socket st' evs)"

fun event_loop_from ::
  "nat \<Rightarrow> ('c, 'w) env \<Rightarrow> int \<Rightarrow> int \<Rightarrow> (int \<rightharpoonup> 'c) \<times> 'w \<Rightarrow> error + ((int \<rightharpoonup> 'c) \<times> 'w)"
where
  "event_loop_from 0 env epoll_fd server_socket st = Inr st"
| "event_loop_from (Suc n) env epoll_fd server_socket (clients, w) =
     (let ((num_events, evs), w1) = epoll_wait env w epoll_fd MAX_EVENTS
      in if num_events < 0 then Inl (Exit EXIT_FAILURE)
         else (case handle_events env epoll_fd server_socket (clients, w1)
                      (take (nat num_events) evs) of
                 Inl e \<Rightarrow> Inl e
               | Inr st' \<Rightarrow> event_loop_from n env epoll_fd server_socket st'))"

definition event_loop ::
  "nat \<Rightarrow> ('c, 'w) env \<Rightarrow> int \<Rightarrow> int \<Rightarrow> 'w \<Rightarrow> error + ((int \<rightharpoonup> 'c) \<times> 'w)"
where
  "event_loop n env epoll_fd server_socket w =
     event_loop_from n env epoll_fd server_socket (Map.empty, w)"

subsection \<open>Invariants of the sender and the contract of \<open>send\<close>\<close>

text \<open>
  \<open>cursor_inv\<close> is \<open>0 \<le> curr_loc \<le> array_length\<close>; the lower bound holds of every
  \<open>size_t\<close>.  \<open>buffer_inv\<close> says that the heap block \<open>array\<close> has \<open>array_length\<close>
  bytes.  \<open>send_contract\<close> is what POSIX promises of \<open>send\<close>: the value returned is
  never larger than the number of bytes offered.
\<close>

definition cursor_inv :: "ArraySender \<Rightarrow> bool" where
  "cursor_inv this \<longleftrightarrow> curr_loc this \<le> array_length this"

definition buffer_inv :: "ArraySender \<Rightarrow> bool" where
  "buffer_inv this \<longleftrightarrow> length (array this) = unat (array_length this)"

definition send_contract :: "'w send_fn \<Rightarrow> bool" where
  "send_contract send \<longleftrightarrow>
     (\<forall>w sock_fd buf len. sint (ret (fst (send w sock_fd buf len))) \<le> uint len)"

subsection \<open>Concrete transports and senders\<close>

text \<open>
  \<open>send_fails e\<close> fails every call with \<open>errno = e\<close>; \<open>send_accepts_nothing\<close> returns
  0; \<open>send_accepts k\<close> takes at most \<open>k\<close> bytes of every call and \<open>send_accepts_all\<close>
  takes all of them.  The last two record what they took: their world is the list of the
  byte strings delivered, oldest first.
\<close>

definition ECONNRESET :: int where
  "ECONNRESET = 104"

definition send_fails :: "int \<Rightarrow> 'w send_fn" where
  "send_fails e w sock_fd buf len = (\<lparr>ret = - 1, errno = e\<rparr>, w)"

definition send_accepts_nothing :: "'w send_fn" where
  "send_accepts_nothing w sock_fd buf len = (\<lparr>ret = 0, errno = 0\<rparr>, w)"

definition send_accepts :: "size_t \<Rightarrow> byte list list send_fn" where
  "send_accepts k w sock_fd buf len =
     (\<lparr>ret = min len k, errno = 0\<rparr>, w @ [take (unat (min len k)) buf])"

definition send_accepts_all :: "byte list list send_fn" where
  "send_accepts_all w sock_fd buf len = (\<lparr>ret = len, errno = 0\<rparr>, w @ [take (unat len) buf])"

definition payload10 :: "byte list" where
  "payload10 = [0, 1, 2, 3, 4, 5, 6, 7, 8, 9]"

definition sender10 :: ArraySender where
  "sender10 = \<lparr>array = payload10, array_length = 10, curr_loc = 0\<rparr>"

subsection \<open>An instance of the missing class and of the system\<close>

text \<open>
  Modelled from the spec: \<open>ConnectedClient\<close> and its methods are not among the sources.
  Section 3 of the specification gives a connection its handle, its mode and an optional
  transmitter; section 4.2 has \<open>close\<close> deregister the handle from readiness
  notification and release the connection state, discarding the transmitter.  Parsing
  the input is an external collaborator (section 6): \<open>spec_handle_input\<close> changes
  nothing.  The descriptor of a default-constructed object is taken to be \<open>-1\<close>.
\<close>

record ConnectedClient =
  client_fd :: int
  state :: ClientState
  sender :: "ArraySender option"

text \<open>
  The world of the instance: the epoll interest list (the mask watched for each
  descriptor), the descriptors \<open>accept\<close> will return, the byte strings delivered to the
  peer, and the batches of events \<open>epoll_wait\<close> will report.
\<close>

record os_world =
  interest :: "int \<rightharpoonup> 32 word"
  pending :: "int list"
  wire :: "byte list list"
  ready :: "epoll_event list list"

text \<open>
  Modelled from the spec: \<open>ConnectedClient::handle_close\<close> is missing; it is the
  \<open>close\<close> of section 4.2 without the removal of the table entry, which the loop does
  itself.
\<close>

definition spec_handle_close ::
  "ConnectedClient \<Rightarrow> int \<Rightarrow> os_world \<Rightarrow> error + (ConnectedClient \<times> os_world)" where
  "spec_handle_close this epoll_fd w =
     Inr (this\<lparr>state := CLOSING, sender := None\<rparr>,
          w\<lparr>interest := (interest w)(client_fd this := None)\<rparr>)"

text \<open>
  Modelled from the spec: \<open>ConnectedClient::handle_input\<close> is missing; the parser it
  feeds is outside the core (section 6).
\<close>

definition spec_handle_input ::
  "ConnectedClient \<Rightarrow> int \<Rightarrow> os_world \<Rightarrow> error + (ConnectedClient \<times> os_world)" where
  "spec_handle_input this epoll_fd w = Inr (this, w)"

text \<open>
  The system calls of the instance: \<open>accept\<close> returns the next pending descriptor (or
  \<open>-1\<close>), \<open>epoll_ctl\<close> records the mask given for the descriptor, \<open>epoll_wait\<close>
  reports the next batch of events, and the two \<open>fcntl\<close> calls succeed with 0.
\<close>

definition os_accept :: "os_world \<Rightarrow> int \<Rightarrow> int \<times> os_world" where
  "os_accept w server_socket =
     (case pending w of [] \<Rightarrow> (- 1, w) | new_fd # fds \<Rightarrow> (new_fd, w\<lparr>pending := fds\<rparr>))"

definition os_epoll_ctl ::
  "os_world \<Rightarrow> int \<Rightarrow> int \<Rightarrow> int \<Rightarrow> epoll_event \<Rightarrow> int \<times> os_world" where
  "os_epoll_ctl w epoll_fd op sock ev = (0, w\<lparr>interest := (interest w)(sock \<mapsto> events ev)\<rparr>)"

definition os_epoll_wait ::
  "os_world \<Rightarrow> int \<Rightarrow> int \<Rightarrow> (int \<times> epoll_event list) \<times> os_world" where
  "os_epoll_wait w epoll_fd maxevents =
     (case ready w of
        [] \<Rightarrow> ((0, []), w)
      | evs # rest \<Rightarrow> ((int (length evs), evs), w\<lparr>ready := rest\<rparr>))"

text \<open>
  Modelled from the spec: the constructors of \<open>ConnectedClient\<close> are missing; a new
  connection has its handle, the mode given and no transmitter (section 3).
\<close>

definition spec_env :: "(ConnectedClient, os_world) env" where
  "spec_env =
     \<lparr>ConnectedClient_default = \<lparr>client_fd = - 1, state = RECEIVING, sender = None\<rparr>,
      ConnectedClient_new = (\<lambda>sock st. \<lparr>client_fd = sock, state = st, sender = None\<rparr>),
      handle_close = spec_handle_close,
      handle_input = spec_handle_input,
      accept = os_accept,
      fcntl_getfl = (\<lambda>w sock. (0, w)),
      fcntl_setfl = (\<lambda>w sock flags. (0, w)),
      epoll_ctl = os_epoll_ctl,
      epoll_wait = os_epoll_wait\<rparr>"

text \<open>A transport that records the bytes delivered, as a \<open>send\<close> of this world.\<close>

definition os_send :: "byte list list send_fn \<Rightarrow> os_world send_fn" where
  "os_send send w sock_fd buf len =
     (let (reply, delivered) = send (wire w) sock_fd buf len
      in (reply, w\<lparr>wire := delivered\<rparr>))"

text \<open>
  Modelled from the spec: what section 4.3 asks of a write-readiness event, which the
  source does not implement.  \<open>drain\<close> (section 4.2) delegates to \<open>send_next_chunk\<close>;
  on the complete result (0) the connection returns to RECEIVING and write interest is
  dropped; on would-block or a partial send the connection stays write-armed; on a fatal
  result the handle is closed.
\<close>

definition spec_write_ready ::
  "size_t \<Rightarrow> os_world send_fn \<Rightarrow> (int \<rightharpoonup> ConnectedClient) \<times> os_world \<Rightarrow> int
     \<Rightarrow> (int \<rightharpoonup> ConnectedClient) \<times> os_world"
where
  "spec_write_ready CHUNK_SIZE send st sock =
     (case fst st sock of
        None \<Rightarrow> st
      | Some c \<Rightarrow>
          (case sender c of
             None \<Rightarrow> st
           | Some s \<Rightarrow>
               (case send_next_chunk CHUNK_SIZE send s sock (snd st) of
                  Inl e \<Rightarrow>
                    ((fst st)(sock := None),
                     (snd st)\<lparr>interest := (interest (snd st))(sock := None)\<rparr>)
                | Inr (r, s', w') \<Rightarrow>
                    if r = 0 then
                      ((fst st)(sock \<mapsto> c\<lparr>state := RECEIVING, sender := None\<rparr>),
                       w'\<lparr>interest := (interest w')(sock \<mapsto> EPOLLIN OR EPOLLRDHUP)\<rparr>)
                    else ((fst st)(sock \<mapsto> c\<lparr>sender := Some s'\<rparr>), w'))))"

text \<open>
  Concrete inputs: a table with one client, descriptor 7, in the middle of sending the
  ten-byte payload (4 bytes sent, 6 left) and registered for input, hang-up and output;
  and a world with a listening socket 3 on which one connection and then its hang-up
  arrive.
\<close>

definition clients_sending :: "int \<rightharpoonup> ConnectedClient" where
  "clients_sending =
     [7 \<mapsto> \<lparr>client_fd = 7, state = SENDING, sender = Some (sender10\<lparr>curr_loc := 4\<rparr>)\<rparr>]"

definition world_sending :: os_world where
  "world_sending =
     \<lparr>interest = [7 \<mapsto> EPOLLIN OR EPOLLRDHUP OR EPOLLOUT], pending = [], wire = [[0, 1, 2, 3]],
      ready = []\<rparr>"

definition world_listening :: os_world where
  "world_listening =
     \<lparr>interest = [3 \<mapsto> EPOLLIN], pending = [7], wire = [],
      ready = [[\<lparr>events = EPOLLIN, data_fd = 3\<rparr>],
               [\<lparr>events = EPOLLRDHUP OR EPOLLIN, data_fd = 7\<rparr>]]\<rparr>"

section \<open>Properties of the sender\<close>

subsection \<open>Words as numbers\<close>

lemma sint_nonneg_uint: "0 \<le> sint (k::64 word) \<Longrightarrow> uint k = sint k"
  by (simp add: uint_sint take_bit_int_eq_self order_less_trans[OF sint_lt[of k]])

lemma sint_le_uint: "sint (k::64 word) \<le> uint k"
proof (cases "0 \<le> sint k")
  case True
  then show ?thesis by (simp add: sint_nonneg_uint)
next
  case False
  then have "sint k < 0" by simp
  also have "0 \<le> uint k" by simp
  finally show ?thesis by simp
qed

lemma unat_positive_ret: "0 <s (k::64 word) \<Longrightarrow> int (unat k) = sint k"
  by (simp add: word_sless_alt sint_nonneg_uint)

lemma sint_of_nat_small: "m < 2 ^ 63 \<Longrightarrow> sint (of_nat m :: 64 word) = int m"
  by (simp add: signed_of_nat signed_take_bit_int_eq_self)

lemma small_pos_sless: "0 < (k::64 word) \<Longrightarrow> unat k < 2 ^ 63 \<Longrightarrow> 0 <s k \<and> sint k = uint k"
proof -
  assume k: "0 < k" and small: "unat k < 2 ^ 63"
  have "sint (of_nat (unat k) :: 64 word) = int (unat k)"
    using small by (rule sint_of_nat_small)
  then have s: "sint k = uint k" by simp
  from k have "0 < uint k" by (simp add: word_less_def)
  with s show ?thesis by (simp add: word_sless_alt)
qed

lemma unat_min: "unat (min (a::64 word) b) = min (unat a) (unat b)"
  by (simp add: min_def word_le_nat_alt)

lemma cursor_advance:
  fixes cur len k :: "64 word"
  assumes "cur \<le> len" and "unat k \<le> unat len - unat cur"
  shows "unat (cur + k) = unat cur + unat k" and "cur + k \<le> len" and "cur \<le> cur + k"
proof -
  have le: "unat cur \<le> unat len" using assms(1) by (simp add: word_le_nat_alt)
  have "unat len < 2 ^ 64" using unsigned_less[of len] by simp
  with le assms(2) have "unat cur + unat k < 2 ^ LENGTH(64)" by simp
  then show 1: "unat (cur + k) = unat cur + unat k" by (simp only: unat_add_lem)
  from 1 le assms(2) show "cur + k \<le> len" by (simp add: word_le_nat_alt)
  from 1 show "cur \<le> cur + k" by (simp add: word_le_nat_alt)
qed

lemma ceil_div_bounds:
  fixes P C :: nat
  assumes "0 < C"
  defines "k \<equiv> (P + C - 1) div C"
  shows "P \<le> k * C" and "k = 0 \<or> (k - 1) * C < P"
proof -
  have eq: "k * C + (P + C - 1) mod C = P + C - 1"
    unfolding k_def by (rule div_mult_mod_eq)
  have r: "(P + C - 1) mod C < C" using assms(1) by simp
  from eq r show "P \<le> k * C" by linarith
  show "k = 0 \<or> (k - 1) * C < P"
  proof (cases "P = 0")
    case True
    with assms(1) show ?thesis by (simp add: k_def)
  next
    case False
    have "(k - 1) * C = k * C - C" by (simp add: diff_mult_distrib)
    with eq r False have "(k - 1) * C < P" by linarith
    then show ?thesis ..
  qed
qed

subsection \<open>The local variables of \<open>send_next_chunk\<close>\<close>

lemma unat_num_bytes_remaining:
  "cursor_inv this \<Longrightarrow>
   unat (num_bytes_remaining this) = unat (array_length this) - unat (curr_loc this)"
  by (simp add: cursor_inv_def num_bytes_remaining_def unat_sub)

lemma unat_bytes_in_chunk:
  "cursor_inv this \<Longrightarrow>
   unat (bytes_in_chunk C this) = min (unat (array_length this) - unat (curr_loc this)) (unat C)"
  by (simp add: bytes_in_chunk_def unat_min unat_num_bytes_remaining)

lemma bytes_in_chunk_pos_iff:
  "0 < bytes_in_chunk C this \<longleftrightarrow> curr_loc this \<noteq> array_length this \<and> 0 < C"
  by (auto simp: bytes_in_chunk_def num_bytes_remaining_def min_def word_greater_zero_iff)

lemma exhausted_bytes_in_chunk:
  "curr_loc this = array_length this \<Longrightarrow> bytes_in_chunk CHUNK_SIZE this = 0"
  by (simp add: bytes_in_chunk_def num_bytes_remaining_def)

lemma map_nth_slice:
  "off + n \<le> length xs \<Longrightarrow> map (\<lambda>i. xs ! i) [off ..< off + n] = take n (drop off xs)"
  by (rule nth_equalityI) simp_all

lemma read_bytes_Some:
  "off + n \<le> length src \<Longrightarrow> read_bytes src off n = Some (take n (drop off src))"
  by (simp add: read_bytes_def map_nth_slice)

lemma chunk_in_bounds:
  assumes "cursor_inv this" and "buffer_inv this"
  shows "chunk C this =
           Some (take (unat (bytes_in_chunk C this)) (drop (unat (curr_loc this)) (array this))
                 @ replicate (unat C - unat (bytes_in_chunk C this)) 0)"
proof -
  let ?n = "unat (bytes_in_chunk C this)"
  have n: "?n = min (unat (array_length this) - unat (curr_loc this)) (unat C)"
    using assms(1) by (rule unat_bytes_in_chunk)
  have le: "unat (curr_loc this) \<le> unat (array_length this)"
    using assms(1) by (simp add: cursor_inv_def word_le_nat_alt)
  have "unat (curr_loc this) + ?n \<le> length (array this)"
    using assms(2) le n by (simp add: buffer_inv_def)
  moreover have "?n \<le> unat C" using n by simp
  ultimately show ?thesis
    by (simp add: chunk_def memcpy_def read_bytes_Some)
qed

lemma ctor_Inr:
  "ArraySender_ctor xs len = Inr this \<Longrightarrow>
   unat len \<le> length xs \<and> this = \<lparr>array = take (unat len) xs, array_length = len, curr_loc = 0\<rparr>"
  by (auto simp: ArraySender_ctor_def read_bytes_def map_nth_slice[of 0, simplified]
           split: if_splits)

subsection \<open>One call\<close>

lemma exhausted_send_next_chunk:
  "curr_loc this = array_length this \<Longrightarrow>
   send_next_chunk CHUNK_SIZE send this sock_fd w = Inr (0, this, w)"
  by (simp add: send_next_chunk_def exhausted_bytes_in_chunk)

lemma send_next_chunk_sending:
  assumes "0 < bytes_in_chunk C this" and "chunk C this = Some buf"
    and "send w sock_fd buf (bytes_in_chunk C this) = (reply, w')"
  shows "send_next_chunk C send this sock_fd w =
           (if 0 <s ret reply then
              Inr (ret reply, this\<lparr>curr_loc := curr_loc this + ret reply\<rparr>, w')
            else if ret reply <s 0 \<and> errno reply = EAGAIN then Inr (- 1, this, w')
            else Inl (Exit EXIT_FAILURE))"
  using assms by (simp add: send_next_chunk_def Let_def)

lemma send_next_chunk_cases:
  assumes "send_next_chunk C send this sock_fd w = Inr (r, this', w')"
  shows "(r = 0 \<and> this' = this \<and> w' = w \<and> bytes_in_chunk C this = 0) \<or>
         (0 < bytes_in_chunk C this \<and>
          (\<exists>buf reply. chunk C this = Some buf \<and>
             send w sock_fd buf (bytes_in_chunk C this) = (reply, w') \<and>
             ((0 <s ret reply \<and> r = ret reply \<and>
               this' = this\<lparr>curr_loc := curr_loc this + ret reply\<rparr>) \<or>
              (\<not> 0 <s ret reply \<and> ret reply <s 0 \<and> errno reply = EAGAIN \<and> r = - 1 \<and> this' = this))))"
  using assms
  by (auto simp: send_next_chunk_def Let_def word_greater_zero_iff
           split: if_splits option.splits prod.splits)

lemma send_next_chunk_preserves:
  assumes inv: "cursor_inv this" and sc: "send_contract send"
    and run: "send_next_chunk C send this sock_fd w = Inr (r, this', w')"
  shows "cursor_inv this' \<and> curr_loc this \<le> curr_loc this' \<and>
         array_length this' = array_length this \<and> array this' = array this"
proof -
  from send_next_chunk_cases[OF run]
  consider "this' = this"
    | buf reply where "send w sock_fd buf (bytes_in_chunk C this) = (reply, w')"
        "0 <s ret reply" "this' = this\<lparr>curr_loc := curr_loc this + ret reply\<rparr>"
    by blast
  then show ?thesis
  proof cases
    case 1
    with inv show ?thesis by simp
  next
    case 2
    from sc 2(1) have "sint (ret reply) \<le> uint (bytes_in_chunk C this)"
      unfolding send_contract_def by (metis fst_conv)
    with 2(2) have "ret reply \<le> bytes_in_chunk C this"
      by (simp add: word_le_def word_sless_alt sint_nonneg_uint)
    then have "unat (ret reply) \<le> unat (array_length this) - unat (curr_loc this)"
      using unat_bytes_in_chunk[OF inv, of C] by (simp add: word_le_nat_alt)
    from cursor_advance[OF inv[unfolded cursor_inv_def] this] 2(3)
    show ?thesis by (simp add: cursor_inv_def)
  qed
qed

lemma returns_zero_iff:
  assumes "0 < C"
  shows "(\<exists>this' w'. send_next_chunk C send this sock_fd w = Inr (0, this', w'))
           \<longleftrightarrow> curr_loc this = array_length this"
proof
  assume "\<exists>this' w'. send_next_chunk C send this sock_fd w = Inr (0, this', w')"
  then obtain this' w' where "send_next_chunk C send this sock_fd w = Inr (0, this', w')"
    by blast
  from send_next_chunk_cases[OF this] have "bytes_in_chunk C this = 0"
    by (auto simp: word_sless_alt)
  with assms show "curr_loc this = array_length this"
    using bytes_in_chunk_pos_iff[of C this] by (simp add: word_greater_zero_iff)
next
  assume "curr_loc this = array_length this"
  then show "\<exists>this' w'. send_next_chunk C send this sock_fd w = Inr (0, this', w')"
    by (simp add: exhausted_send_next_chunk)
qed

subsection \<open>Calls in a row\<close>

lemma send_chunks_preserves:
  "cursor_inv this \<Longrightarrow> send_contract send \<Longrightarrow>
   send_chunks n C send this sock_fd w = Inr (rs, this', w') \<Longrightarrow>
   cursor_inv this' \<and> curr_loc this \<le> curr_loc this' \<and>
   array_length this' = array_length this \<and> array this' = array this"
proof (induction n arbitrary: this w rs)
  case 0
  then show ?case by simp
next
  case (Suc n)
  from Suc.prems(3) obtain r s1 w1 rs1 where
    one: "send_next_chunk C send this sock_fd w = Inr (r, s1, w1)" and
    rest: "send_chunks n C send s1 sock_fd w1 = Inr (rs1, this', w')"
    by (auto split: sum.splits prod.splits)
  from send_next_chunk_preserves[OF Suc.prems(1,2) one]
  have s1: "cursor_inv s1" "curr_loc this \<le> curr_loc s1"
    "array_length s1 = array_length this" "array s1 = array this" by simp_all
  from Suc.IH[OF s1(1) Suc.prems(2) rest] s1 show ?case by auto
qed

lemma send_contract_send_accepts: "send_contract (send_accepts k)"
proof -
  have "sint (min len k) \<le> uint len" for len
  proof -
    have "sint (min len k) \<le> uint (min len k)" by (rule sint_le_uint)
    also have "\<dots> \<le> uint len" by (simp add: word_le_def[symmetric])
    finally show ?thesis .
  qed
  then show ?thesis by (simp add: send_contract_def send_accepts_def)
qed

lemma accepts_all_step:
  assumes inv: "cursor_inv this" "buffer_inv this" and C: "0 < C" "unat C < 2 ^ 63"
    and more: "curr_loc this \<noteq> array_length this"
  shows "send_next_chunk C send_accepts_all this sock_fd w =
           Inr (bytes_in_chunk C this,
                this\<lparr>curr_loc := curr_loc this + bytes_in_chunk C this\<rparr>,
                w @ [take (unat (bytes_in_chunk C this))
                       (drop (unat (curr_loc this)) (array this))])"
    and "0 <s bytes_in_chunk C this"
    and "sint (bytes_in_chunk C this) = uint (bytes_in_chunk C this)"
proof -
  let ?n = "bytes_in_chunk C this"
  have pos: "0 < ?n" using more C(1) by (simp add: bytes_in_chunk_pos_iff)
  have "unat ?n \<le> unat C" using unat_bytes_in_chunk[OF inv(1), of C] by simp
  with C(2) have "unat ?n < 2 ^ 63" by simp
  from small_pos_sless[OF pos this]
  show sp: "0 <s ?n" and "sint ?n = uint ?n" by simp_all
  have "send_accepts_all w sock_fd
          (take (unat ?n) (drop (unat (curr_loc this)) (array this))
             @ replicate (unat C - unat ?n) 0) ?n
        = (\<lparr>ret = ?n, errno = 0\<rparr>,
           w @ [take (unat ?n) (drop (unat (curr_loc this)) (array this))])"
    using unat_bytes_in_chunk[OF inv(1), of C] inv(2)
    by (simp add: send_accepts_all_def buffer_inv_def)
  from send_next_chunk_sending[where send = send_accepts_all, OF pos chunk_in_bounds[OF inv] this] sp
  show "send_next_chunk C send_accepts_all this sock_fd w =
           Inr (?n, this\<lparr>curr_loc := curr_loc this + ?n\<rparr>,
                w @ [take (unat ?n) (drop (unat (curr_loc this)) (array this))])"
    by simp
qed

lemma accepts_all_run:
  assumes C: "0 < C" "unat C < 2 ^ 63"
  shows "cursor_inv this \<Longrightarrow> buffer_inv this \<Longrightarrow>
    n = 0 \<or> (n - 1) * unat C < unat (array_length this) - unat (curr_loc this) \<Longrightarrow>
    \<exists>rs this' chunks.
      send_chunks n C send_accepts_all this sock_fd w = Inr (rs, this', w @ chunks) \<and>
      length rs = n \<and> (\<forall>r \<in> set rs. 0 <s r) \<and>
      sum_list (map sint rs)
        = int (min (n * unat C) (unat (array_length this) - unat (curr_loc this))) \<and>
      unat (curr_loc this')
        = unat (curr_loc this) + min (n * unat C) (unat (array_length this) - unat (curr_loc this)) \<and>
      array this' = array this \<and> array_length this' = array_length this \<and>
      map (\<lambda>c. int (length c)) chunks = map sint rs \<and>
      concat chunks
        = take (min (n * unat C) (unat (array_length this) - unat (curr_loc this)))
            (drop (unat (curr_loc this)) (array this)) \<and>
      (\<forall>i<n. sint (rs ! i)
         = int (min (unat C) (unat (array_length this) - unat (curr_loc this) - i * unat C)))"
proof (induction n arbitrary: this w)
  case 0
  then show ?case by simp
next
  case (Suc n)
  let ?len = "unat (array_length this)" and ?cur = "unat (curr_loc this)" and ?C = "unat C"
  let ?b = "bytes_in_chunk C this"
  let ?s1 = "this\<lparr>curr_loc := curr_loc this + ?b\<rparr>"
  let ?c1 = "take (unat ?b) (drop ?cur (array this))"
  have Cpos: "0 < ?C" using C(1) by (simp add: word_less_nat_alt)
  from Suc.prems(3) have rem: "n * ?C < ?len - ?cur" by simp
  then have more: "curr_loc this \<noteq> array_length this" by auto
  note step = accepts_all_step[OF Suc.prems(1,2) C more]
  have b: "unat ?b = min (?len - ?cur) ?C" by (rule unat_bytes_in_chunk[OF Suc.prems(1)])
  then have ble: "unat ?b \<le> ?len - ?cur" by simp
  note adv = cursor_advance[OF Suc.prems(1)[unfolded cursor_inv_def] ble]
  have inv1: "cursor_inv ?s1" "buffer_inv ?s1"
    using adv(2) Suc.prems(2) by (simp_all add: cursor_inv_def buffer_inv_def)
  have cur1: "unat (curr_loc ?s1) = ?cur + unat ?b" using adv(1) by simp
  have len1: "unat (array_length ?s1) = ?len" by simp
  have cond1: "n = 0 \<or> (n - 1) * ?C < unat (array_length ?s1) - unat (curr_loc ?s1)"
  proof (cases n)
    case 0
    then show ?thesis by simp
  next
    case (Suc m)
    with rem have "?C \<le> m * ?C + ?C" "m * ?C + ?C < ?len - ?cur" by simp_all
    then have "unat ?b = ?C" using b by simp
    with Suc rem show ?thesis by (simp add: adv(1))
  qed
  from Suc.IH[OF inv1 cond1, of "w @ [?c1]"] obtain rs this' chunks where
    run: "send_chunks n C send_accepts_all ?s1 sock_fd (w @ [?c1]) = Inr (rs, this', (w @ [?c1]) @ chunks)"
    and props: "length rs = n" "\<forall>r \<in> set rs. 0 <s r"
      "sum_list (map sint rs) = int (min (n * ?C) (?len - (?cur + unat ?b)))"
      "unat (curr_loc this') = ?cur + unat ?b + min (n * ?C) (?len - (?cur + unat ?b))"
      "array this' = array this" "array_length this' = array_length this"
      "map (\<lambda>c. int (length c)) chunks = map sint rs"
      "concat chunks = take (min (n * ?C) (?len - (?cur + unat ?b))) (drop (?cur + unat ?b) (array this))"
      "\<forall>i<n. sint (rs ! i) = int (min ?C (?len - (?cur + unat ?b) - i * ?C))"
    unfolding cur1 len1 by auto
  have full: "unat ?b = ?C" if "0 < n"
  proof -
    from that have "?C \<le> n * ?C" by simp
    with rem b show ?thesis by simp
  qed
  have idx: "sint ((?b # rs) ! i) = int (min ?C (?len - ?cur - i * ?C))" if "i < Suc n" for i
  proof (cases i)
    case 0
    have "sint ?b = int (unat ?b)" using step(3) by simp
    with 0 b show ?thesis by (simp add: min.commute)
  next
    case (Suc j)
    with that have j: "j < n" by simp
    then have "unat ?b = ?C" using full by simp
    with props(9) j Suc show ?thesis by (simp add: diff_diff_add add.commute)
  qed
  have total: "unat ?b + min (n * ?C) (?len - (?cur + unat ?b)) = min (Suc n * ?C) (?len - ?cur)"
    using b rem by (cases n) (auto simp: min_def)
  have lc1: "length ?c1 = unat ?b"
    using ble Suc.prems(2) by (simp add: buffer_inv_def)
  have cat: "?c1 @ take (min (n * ?C) (?len - (?cur + unat ?b))) (drop (?cur + unat ?b) (array this))
             = take (min (Suc n * ?C) (?len - ?cur)) (drop ?cur (array this))"
    unfolding total[symmetric] by (simp add: take_add add.commute)
  have "send_chunks (Suc n) C send_accepts_all this sock_fd w = Inr (?b # rs, this', w @ (?c1 # chunks))"
    using step(1)[of sock_fd w] run by simp
  moreover have "length (?b # rs) = Suc n" using props(1) by simp
  moreover have "\<forall>r \<in> set (?b # rs). 0 <s r" using props(2) step(2) by simp
  moreover have "sum_list (map sint (?b # rs)) = int (min (Suc n * ?C) (?len - ?cur))"
    using props(3) step(3) arg_cong[OF total, of int] by simp
  moreover have "unat (curr_loc this') = ?cur + min (Suc n * ?C) (?len - ?cur)"
    using props(4) total by simp
  moreover have "map (\<lambda>c. int (length c)) (?c1 # chunks) = map sint (?b # rs)"
    using props(7) step(3) lc1 by simp
  moreover have "concat (?c1 # chunks) = take (min (Suc n * ?C) (?len - ?cur)) (drop ?cur (array this))"
    using props(8) cat by simp
  ultimately show ?case using props(5,6) idx by blast
qed

lemma chunks_nonempty:
  assumes "map (\<lambda>c. int (length c)) chunks = map sint rs" and "\<forall>r \<in> set rs. 0 <s r"
  shows "length chunks = length rs \<and> (\<forall>c \<in> set chunks. c \<noteq> [])"
proof -
  have len: "length chunks = length rs"
    using assms(1) by (rule map_eq_imp_length_eq)
  have "c \<noteq> []" if "c \<in> set chunks" for c
  proof -
    from that obtain i where i: "i < length chunks" "chunks ! i = c"
      by (auto simp: in_set_conv_nth)
    have "int (length c) = map (\<lambda>c. int (length c)) chunks ! i" using i by simp
    also have "\<dots> = sint (rs ! i)" using i len by (simp add: assms(1))
    also have "0 < \<dots>" using assms(2) i len by (simp add: word_sless_alt)
    finally show ?thesis by auto
  qed
  with len show ?thesis by simp
qed

text \<open>Ten bytes in chunks of four, all accepted: three calls, of 4, 4 and 2 bytes.\<close>

lemma example_three_chunks:
  "send_chunks 3 4 send_accepts_all sender10 5 []
     = Inr ([4, 4, 2], sender10\<lparr>curr_loc := 10\<rparr>, [[0, 1, 2, 3], [4, 5, 6, 7], [8, 9]])"
  by code_simp

subsection \<open>Failure of the transport\<close>

text \<open>
  C1 as the specification states it: an unexpected transport error makes \<open>send_next_chunk\<close>
  return a fatal result to its caller and the process goes on.  The source ends the
  process instead (lines 45 to 49: \<^verbatim>\<open>exit(EXIT_FAILURE)\<close>, under the comment
  "so exit the program"): with \<open>send\<close> failing with \<open>ECONNRESET\<close> on a sender of ten
  bytes the call does not return.
\<close>

theorem fatal_result_counterexample:
  "send_next_chunk 4 (send_fails ECONNRESET) sender10 5 () = Inl (Exit EXIT_FAILURE)"
  by code_simp

text \<open>
  C1, amended.  For a sender with bytes left to send and a positive chunk limit, when
  \<open>send\<close> fails (returns a negative value) with an \<open>errno\<close> other than \<open>EAGAIN\<close>,
  \<open>send_next_chunk\<close> ends the process with status \<open>EXIT_FAILURE\<close>; nothing is returned
  to the caller.
\<close>

theorem unexpected_send_error_exits:
  assumes "curr_loc this \<noteq> array_length this" and "0 < C"
    and "chunk C this = Some buf"
    and "send w sock_fd buf (bytes_in_chunk C this) = (reply, w')"
    and "ret reply <s 0" and "errno reply \<noteq> EAGAIN"
  shows "send_next_chunk C send this sock_fd w = Inl (Exit EXIT_FAILURE)"
proof -
  have pos: "0 < bytes_in_chunk C this"
    using assms(1,2) by (simp add: bytes_in_chunk_pos_iff)
  from assms(5) have "\<not> 0 <s ret reply" by (simp add: word_sless_alt)
  with send_next_chunk_sending[where send = send, OF pos assms(3,4)] assms(6)
  show ?thesis by simp
qed

theorem unexpected_send_error_exits_witness:
  "curr_loc sender10 \<noteq> array_length sender10 \<and> (0::size_t) < 4 \<and>
   chunk 4 sender10 = Some [0, 1, 2, 3] \<and>
   send_fails ECONNRESET () 5 [0, 1, 2, 3] (bytes_in_chunk 4 sender10)
     = (\<lparr>ret = - 1, errno = ECONNRESET\<rparr>, ()) \<and>
   ret \<lparr>ret = - 1, errno = ECONNRESET\<rparr> <s 0 \<and>
   errno \<lparr>ret = - 1, errno = ECONNRESET\<rparr> \<noteq> EAGAIN \<and>
   send_next_chunk 4 (send_fails ECONNRESET) sender10 5 () = Inl (Exit EXIT_FAILURE)"
proof -
  have h1: "curr_loc sender10 \<noteq> array_length sender10" by code_simp
  have h2: "(0::size_t) < 4" by simp
  have h3: "chunk 4 sender10 = Some [0, 1, 2, 3]" by code_simp
  have h4: "send_fails ECONNRESET () 5 [0, 1, 2, 3] (bytes_in_chunk 4 sender10)
     = (\<lparr>ret = - 1, errno = ECONNRESET\<rparr>, ())" by (simp add: send_fails_def)
  have h5: "ret \<lparr>ret = - 1, errno = ECONNRESET\<rparr> <s 0" by simp
  have h6: "errno \<lparr>ret = - 1, errno = ECONNRESET\<rparr> \<noteq> EAGAIN"
    by (simp add: ECONNRESET_def EAGAIN_def)
  from unexpected_send_error_exits[where send = "send_fails ECONNRESET", OF h1 h2 h3 h4 h5 h6]
    h1 h2 h3 h4 h5 h6
  show ?thesis by simp
qed

subsection \<open>Would-block\<close>

text \<open>
  C2 as the specification states it: zero or partial acceptance yields the would-block
  result with the cursor where it was.  In the source a return value of 0 takes the
  last branch and ends the process, and a partial acceptance (2 of the 4 bytes offered)
  is a success that moves the cursor by 2.
\<close>

theorem would_block_counterexample:
  "send_next_chunk 4 send_accepts_nothing sender10 5 () = Inl (Exit EXIT_FAILURE) \<and>
   send_next_chunk 4 (send_accepts 2) sender10 5 []
     = Inr (2, sender10\<lparr>curr_loc := 2\<rparr>, [[0, 1]])"
  by code_simp

text \<open>
  C2, amended.  For a sender with bytes left to send and a positive chunk limit, when
  \<open>send\<close> returns a negative value with \<open>errno = EAGAIN\<close>, \<open>send_next_chunk\<close> returns
  \<open>-1\<close> and leaves the sender, so the cursor, as it was; a later call on which the
  transport accepts some bytes hands the same buffer \<open>buf\<close> to \<open>send\<close> and advances
  the cursor from the same offset.
\<close>

theorem would_block_keeps_cursor:
  assumes "curr_loc this \<noteq> array_length this" and "0 < C"
    and "chunk C this = Some buf"
    and "send w sock_fd buf (bytes_in_chunk C this) = (reply, w')"
    and "ret reply <s 0" and "errno reply = EAGAIN"
  shows "send_next_chunk C send this sock_fd w = Inr (- 1, this, w') \<and>
         (send2 w' sock_fd buf (bytes_in_chunk C this) = (reply2, w'') \<and> 0 <s ret reply2 \<longrightarrow>
          send_next_chunk C send2 this sock_fd w'
            = Inr (ret reply2, this\<lparr>curr_loc := curr_loc this + ret reply2\<rparr>, w''))"
proof -
  have pos: "0 < bytes_in_chunk C this"
    using assms(1,2) by (simp add: bytes_in_chunk_pos_iff)
  from assms(5) have "\<not> 0 <s ret reply" by (simp add: word_sless_alt)
  with send_next_chunk_sending[where send = send, OF pos assms(3,4)] assms(5,6)
  have first: "send_next_chunk C send this sock_fd w = Inr (- 1, this, w')" by simp
  have "send_next_chunk C send2 this sock_fd w'
          = Inr (ret reply2, this\<lparr>curr_loc := curr_loc this + ret reply2\<rparr>, w'')"
    if "send2 w' sock_fd buf (bytes_in_chunk C this) = (reply2, w'')" and "0 <s ret reply2"
    using send_next_chunk_sending[where send = send2, OF pos assms(3) that(1)] that(2) by simp
  with first show ?thesis by simp
qed

theorem would_block_keeps_cursor_witness:
  "curr_loc sender10 \<noteq> array_length sender10 \<and> (0::size_t) < 4 \<and>
   chunk 4 sender10 = Some [0, 1, 2, 3] \<and>
   send_fails EAGAIN ([]::byte list list) 5 [0, 1, 2, 3] (bytes_in_chunk 4 sender10)
     = (\<lparr>ret = - 1, errno = EAGAIN\<rparr>, []) \<and>
   ret \<lparr>ret = - 1, errno = EAGAIN\<rparr> <s 0 \<and>
   errno \<lparr>ret = - 1, errno = EAGAIN\<rparr> = EAGAIN \<and>
   send_next_chunk 4 (send_fails EAGAIN) sender10 5 ([]::byte list list) = Inr (- 1, sender10, []) \<and>
   send_accepts 2 [] 5 [0, 1, 2, 3] (bytes_in_chunk 4 sender10)
     = (\<lparr>ret = 2, errno = 0\<rparr>, [[0, 1]]) \<and>
   0 <s ret \<lparr>ret = 2, errno = 0\<rparr> \<and>
   send_next_chunk 4 (send_accepts 2) sender10 5 []
     = Inr (ret \<lparr>ret = 2, errno = 0\<rparr>,
            sender10\<lparr>curr_loc := curr_loc sender10 + ret \<lparr>ret = 2, errno = 0\<rparr>\<rparr>, [[0, 1]])"
proof -
  have h1: "curr_loc sender10 \<noteq> array_length sender10" by code_simp
  have h2: "(0::size_t) < 4" by simp
  have h3: "chunk 4 sender10 = Some [0, 1, 2, 3]" by code_simp
  have h4: "send_fails EAGAIN ([]::byte list list) 5 [0, 1, 2, 3] (bytes_in_chunk 4 sender10)
     = (\<lparr>ret = - 1, errno = EAGAIN\<rparr>, [])" by (simp add: send_fails_def)
  have h5: "ret \<lparr>ret = - 1, errno = EAGAIN\<rparr> <s 0" by simp
  have h6: "errno \<lparr>ret = - 1, errno = EAGAIN\<rparr> = EAGAIN" by simp
  have h7: "send_accepts 2 [] 5 [0, 1, 2, 3] (bytes_in_chunk 4 sender10)
     = (\<lparr>ret = 2, errno = 0\<rparr>, [[0, 1]])" by code_simp
  have h8: "0 <s ret \<lparr>ret = 2, errno = 0\<rparr>" by code_simp
  note t = would_block_keeps_cursor[where send = "send_fails EAGAIN"
      and ?send2.0 = "send_accepts 2" and ?reply2.0 = "\<lparr>ret = 2, errno = 0\<rparr>"
      and w'' = "[[0, 1]]", OF h1 h2 h3 h4 h5 h6]
  from t have c1: "send_next_chunk 4 (send_fails EAGAIN) sender10 5 ([]::byte list list) = Inr (- 1, sender10, [])"
    by (rule conjunct1)
  from t[THEN conjunct2, THEN mp, OF conjI[OF h7 h8]]
  have c2: "send_next_chunk 4 (send_accepts 2) sender10 5 []
     = Inr (ret \<lparr>ret = 2, errno = 0\<rparr>,
            sender10\<lparr>curr_loc := curr_loc sender10 + ret \<lparr>ret = 2, errno = 0\<rparr>\<rparr>, [[0, 1]])" .
  from h1 h2 h3 h4 h5 h6 c1 h7 h8 c2 show ?thesis by (intro conjI)
qed

subsection \<open>Positive acceptance\<close>

text \<open>
  C3.  When the transport accepts \<open>K > 0\<close> of the bytes offered (\<open>K\<close> is
  \<open>ret reply\<close>, at most the \<open>bytes_in_chunk\<close> offered), \<open>send_next_chunk\<close> returns
  \<open>K\<close> and adds exactly \<open>K\<close> to the cursor, without wrap-around; the buffer of the next
  call holds the bytes of the payload from index (old cursor + \<open>K\<close>) on.
\<close>

theorem positive_acceptance_advances_cursor:
  assumes "cursor_inv this" and "buffer_inv this"
    and "chunk C this = Some buf"
    and "send w sock_fd buf (bytes_in_chunk C this) = (reply, w')"
    and "0 <s ret reply" and "sint (ret reply) \<le> uint (bytes_in_chunk C this)"
  shows "send_next_chunk C send this sock_fd w
           = Inr (ret reply, this\<lparr>curr_loc := curr_loc this + ret reply\<rparr>, w') \<and>
         unat (curr_loc this + ret reply) = unat (curr_loc this) + nat (sint (ret reply)) \<and>
         cursor_inv (this\<lparr>curr_loc := curr_loc this + ret reply\<rparr>) \<and>
         chunk C (this\<lparr>curr_loc := curr_loc this + ret reply\<rparr>)
           = Some (take (unat (bytes_in_chunk C (this\<lparr>curr_loc := curr_loc this + ret reply\<rparr>)))
                     (drop (unat (curr_loc this) + nat (sint (ret reply))) (array this))
                   @ replicate (unat C
                       - unat (bytes_in_chunk C (this\<lparr>curr_loc := curr_loc this + ret reply\<rparr>))) 0)"
proof -
  let ?k = "ret reply"
  let ?this' = "this\<lparr>curr_loc := curr_loc this + ?k\<rparr>"
  have k: "nat (sint ?k) = unat ?k"
    by (metis nat_int unat_positive_ret[OF assms(5)])
  have "uint ?k \<le> uint (bytes_in_chunk C this)"
    using assms(5,6) by (simp add: word_sless_alt sint_nonneg_uint)
  then have kle: "?k \<le> bytes_in_chunk C this" by (simp add: word_le_def)
  moreover have "0 < ?k" using assms(5)
    by (auto simp: word_greater_zero_iff word_sless_alt)
  ultimately have pos: "0 < bytes_in_chunk C this" by simp
  from kle have "unat ?k \<le> unat (array_length this) - unat (curr_loc this)"
    using unat_bytes_in_chunk[OF assms(1), of C] by (simp add: word_le_nat_alt)
  note adv = cursor_advance[OF assms(1)[unfolded cursor_inv_def] this]
  have inv': "cursor_inv ?this'" "buffer_inv ?this'"
    using adv(2) assms(2) by (simp_all add: cursor_inv_def buffer_inv_def)
  have "send_next_chunk C send this sock_fd w = Inr (?k, ?this', w')"
    using send_next_chunk_sending[where send = send, OF pos assms(3,4)] assms(5) by simp
  moreover have "unat (curr_loc this + ?k) = unat (curr_loc this) + nat (sint ?k)"
    using adv(1) k by simp
  moreover have "chunk C ?this'
      = Some (take (unat (bytes_in_chunk C ?this'))
                (drop (unat (curr_loc this) + nat (sint ?k)) (array this))
              @ replicate (unat C - unat (bytes_in_chunk C ?this')) 0)"
    using chunk_in_bounds[OF inv', of C] adv(1) k by simp
  ultimately show ?thesis using inv'(1) by simp
qed

theorem positive_acceptance_advances_cursor_witness:
  "cursor_inv sender10 \<and> buffer_inv sender10 \<and> chunk 4 sender10 = Some [0, 1, 2, 3] \<and>
   send_accepts 2 [] 5 [0, 1, 2, 3] (bytes_in_chunk 4 sender10)
     = (\<lparr>ret = 2, errno = 0\<rparr>, [[0, 1]]) \<and>
   0 <s ret \<lparr>ret = 2, errno = 0\<rparr> \<and>
   sint (ret \<lparr>ret = 2, errno = 0\<rparr>) \<le> uint (bytes_in_chunk 4 sender10) \<and>
   send_next_chunk 4 (send_accepts 2) sender10 5 []
     = Inr (2, sender10\<lparr>curr_loc := curr_loc sender10 + 2\<rparr>, [[0, 1]]) \<and>
   unat (curr_loc sender10 + 2) = unat (curr_loc sender10) + 2 \<and>
   chunk 4 (sender10\<lparr>curr_loc := curr_loc sender10 + 2\<rparr>) = Some [2, 3, 4, 5]"
proof -
  have h1: "cursor_inv sender10" by code_simp
  have h2: "buffer_inv sender10" by code_simp
  have h3: "chunk 4 sender10 = Some [0, 1, 2, 3]" by code_simp
  have h4: "send_accepts 2 [] 5 [0, 1, 2, 3] (bytes_in_chunk 4 sender10)
     = (\<lparr>ret = 2, errno = 0\<rparr>, [[0, 1]])" by code_simp
  have h5: "0 <s ret \<lparr>ret = 2, errno = 0\<rparr>" by code_simp
  have h6: "sint (ret \<lparr>ret = 2, errno = 0\<rparr>) \<le> uint (bytes_in_chunk 4 sender10)"
    by code_simp
  have c: "chunk 4 (sender10\<lparr>curr_loc := curr_loc sender10 + 2\<rparr>) = Some [2, 3, 4, 5]"
    by code_simp
  from positive_acceptance_advances_cursor[where send = "send_accepts 2", OF h1 h2 h3 h4 h5 h6]
    h1 h2 h3 h4 h5 h6 c
  show ?thesis by simp
qed

subsection \<open>Chunk sizes and their number\<close>

text \<open>
  C5.  The number of bytes offered by a call is \<open>min (remaining bytes) CHUNK_SIZE\<close>.
  For a chunk limit \<open>C\<close> with \<open>0 < C < 2^63\<close> and a sender constructed over \<open>P\<close>
  bytes (\<open>P = unat len\<close>), on a transport that accepts every byte offered,
  \<open>ceil(P / C) = (P + C - 1) div C\<close> calls all return a positive count and deliver a
  non-empty chunk; call \<open>i\<close> returns \<open>min C (P - i * C)\<close>; the counts add up to \<open>P\<close>,
  the cursor is then \<open>P\<close>, the chunks delivered are the payload in order, and the next
  call returns 0 and delivers nothing.
\<close>

theorem full_acceptance_chunk_count:
  assumes "0 < C" and "unat C < 2 ^ 63" and "ArraySender_ctor xs len = Inr this0"
  shows "(cursor_inv this \<longrightarrow>
            unat (bytes_in_chunk C this)
              = min (unat (array_length this) - unat (curr_loc this)) (unat C)) \<and>
         (\<exists>rs this' chunks.
            send_chunks ((unat len + unat C - 1) div unat C) C send_accepts_all this0 sock_fd w
              = Inr (rs, this', w @ chunks) \<and>
            length rs = (unat len + unat C - 1) div unat C \<and>
            length chunks = (unat len + unat C - 1) div unat C \<and>
            (\<forall>r \<in> set rs. 0 <s r) \<and> (\<forall>c \<in> set chunks. c \<noteq> []) \<and>
            map (\<lambda>c. int (length c)) chunks = map sint rs \<and>
            (\<forall>i < (unat len + unat C - 1) div unat C.
               sint (rs ! i) = int (min (unat C) (unat len - i * unat C))) \<and>
            sum_list (map sint rs) = int (unat len) \<and>
            curr_loc this' = len \<and> array_length this' = len \<and>
            concat chunks = take (unat len) xs \<and>
            send_next_chunk C send_accepts_all this' sock_fd (w @ chunks)
              = Inr (0, this', w @ chunks))"
proof -
  let ?P = "unat len" and ?C = "unat C"
  let ?k = "(?P + ?C - 1) div ?C"
  from ctor_Inr[OF assms(3)] have fit: "?P \<le> length xs"
    and this0: "this0 = \<lparr>array = take ?P xs, array_length = len, curr_loc = 0\<rparr>"
    by simp_all
  have inv0: "cursor_inv this0" "buffer_inv this0"
    using fit by (simp_all add: this0 cursor_inv_def buffer_inv_def)
  have Cpos: "0 < ?C" using assms(1) by (simp add: word_less_nat_alt)
  note kb = ceil_div_bounds[OF Cpos, of ?P]
  have rem0: "unat (array_length this0) - unat (curr_loc this0) = ?P"
    by (simp add: this0)
  have cond: "?k = 0 \<or> (?k - 1) * ?C < unat (array_length this0) - unat (curr_loc this0)"
    unfolding rem0 by (rule kb(2))
  have m: "min (?k * ?C) ?P = ?P" using kb(1) by simp
  from accepts_all_run[OF assms(1,2) inv0 cond, of sock_fd w, unfolded rem0 m]
  obtain rs this' chunks where
    run: "send_chunks ?k C send_accepts_all this0 sock_fd w = Inr (rs, this', w @ chunks)"
    and props: "length rs = ?k" "\<forall>r \<in> set rs. 0 <s r"
      "sum_list (map sint rs) = int ?P"
      "unat (curr_loc this') = unat (curr_loc this0) + ?P"
      "array this' = array this0" "array_length this' = array_length this0"
      "map (\<lambda>c. int (length c)) chunks = map sint rs"
      "concat chunks = take ?P (drop (unat (curr_loc this0)) (array this0))"
      "\<forall>i<?k. sint (rs ! i) = int (min ?C (?P - i * ?C))"
    by blast
  from chunks_nonempty[OF props(7,2)] props(1)
  have ne: "length chunks = ?k" "\<forall>c \<in> set chunks. c \<noteq> []" by simp_all
  have "unat (curr_loc this') = unat len" using props(4) by (simp add: this0)
  then have cur: "curr_loc this' = len" by (simp only: word_unat_eq_iff)
  have alen: "array_length this' = len" using props(6) by (simp add: this0)
  have cat: "concat chunks = take ?P xs" using props(8) by (simp add: this0)
  have fin: "send_next_chunk C send_accepts_all this' sock_fd (w @ chunks)
              = Inr (0, this', w @ chunks)"
    by (rule exhausted_send_next_chunk) (simp add: cur alen)
  have "cursor_inv this \<longrightarrow>
            unat (bytes_in_chunk C this)
              = min (unat (array_length this) - unat (curr_loc this)) ?C"
    by (simp add: unat_bytes_in_chunk)
  with run props(1,2,3,7,9) ne cur alen cat fin show ?thesis by blast
qed

theorem full_acceptance_chunk_count_witness:
  "(0::size_t) < 4 \<and> unat (4::size_t) < 2 ^ 63 \<and> ArraySender_ctor payload10 10 = Inr sender10 \<and>
   (\<exists>rs this' chunks.
            send_chunks ((unat (10::size_t) + unat (4::size_t) - 1) div unat (4::size_t)) 4
                send_accepts_all sender10 5 []
              = Inr (rs, this', [] @ chunks) \<and>
            length rs = (unat (10::size_t) + unat (4::size_t) - 1) div unat (4::size_t) \<and>
            (\<forall>r \<in> set rs. 0 <s r) \<and> (\<forall>c \<in> set chunks. c \<noteq> []) \<and>
            sum_list (map sint rs) = int (unat (10::size_t)) \<and>
            curr_loc this' = 10 \<and> concat chunks = take (unat (10::size_t)) payload10)"
proof -
  have h1: "(0::size_t) < 4" by simp
  have h2: "unat (4::size_t) < 2 ^ 63" by simp
  have h3: "ArraySender_ctor payload10 10 = Inr sender10" by code_simp
  from full_acceptance_chunk_count[OF h1 h2 h3, of sender10 5 "[]"] h1 h2 h3
  show ?thesis by blast
qed

subsection \<open>After exhaustion\<close>

text \<open>
  C6.  On an exhausted sender (cursor = length) a call of \<open>send_next_chunk\<close> returns 0,
  whatever the transport would do (so \<open>send\<close> is not called: the world is the one before
  the call), and leaves the sender as it was; any number \<open>n\<close> of calls in a row returns
  \<open>n\<close> zeros and the same sender and world.
\<close>

theorem send_next_chunk_exhausted_idempotent:
  "curr_loc this = array_length this \<Longrightarrow>
   send_next_chunk CHUNK_SIZE send this sock_fd w = Inr (0, this, w) \<and>
   send_chunks n CHUNK_SIZE send this sock_fd w = Inr (replicate n 0, this, w)"
proof (induction n)
  case 0
  then show ?case by (simp add: exhausted_send_next_chunk)
next
  case (Suc n)
  then show ?case by (simp add: exhausted_send_next_chunk)
qed

theorem send_next_chunk_exhausted_idempotent_witness:
  "curr_loc \<lparr>array = [1, 2, 3], array_length = 3, curr_loc = 3\<rparr>
     = array_length \<lparr>array = [1, 2, 3], array_length = 3, curr_loc = 3\<rparr> \<and>
   send_next_chunk 4096 (send_fails 104)
     \<lparr>array = [1, 2, 3], array_length = 3, curr_loc = 3\<rparr> 5 ()
     = Inr (0, \<lparr>array = [1, 2, 3], array_length = 3, curr_loc = 3\<rparr>, ()) \<and>
   send_chunks 2 4096 (send_fails 104)
     \<lparr>array = [1, 2, 3], array_length = 3, curr_loc = 3\<rparr> 5 ()
     = Inr ([0, 0], \<lparr>array = [1, 2, 3], array_length = 3, curr_loc = 3\<rparr>, ())"
  using send_next_chunk_exhausted_idempotent
    [of "\<lparr>array = [1, 2, 3], array_length = 3, curr_loc = 3\<rparr>" 4096 "send_fails 104" 5 "()" 2]
  by (simp add: numeral_2_eq_2)

subsection \<open>The cursor invariant\<close>

text \<open>
  C7.  The constructor sets the cursor to 0 and establishes \<open>0 \<le> cursor \<le> length\<close>.
  On a transport that never reports more bytes than were offered, every call of
  \<open>send_next_chunk\<close> that returns, and every sequence of such calls, preserves the
  invariant and does not decrease the cursor.  With a positive chunk limit the sender is
  exhausted (the call returns 0) if and only if cursor = length.
\<close>

theorem cursor_invariant:
  "(ArraySender_ctor xs len = Inr this0 \<longrightarrow> curr_loc this0 = 0 \<and> cursor_inv this0) \<and>
   (cursor_inv this \<and> send_contract send \<and>
    send_next_chunk C send this sock_fd w = Inr (r, this', w') \<longrightarrow>
      cursor_inv this' \<and> curr_loc this \<le> curr_loc this') \<and>
   (cursor_inv this \<and> send_contract send \<and>
    send_chunks n C send this sock_fd w = Inr (rs, this'', w'') \<longrightarrow>
      cursor_inv this'' \<and> curr_loc this \<le> curr_loc this'') \<and>
   (0 < C \<longrightarrow>
      ((\<exists>s1 w1. send_next_chunk C send this sock_fd w = Inr (0, s1, w1))
         \<longleftrightarrow> curr_loc this = array_length this))"
proof (intro conjI impI)
  assume "ArraySender_ctor xs len = Inr this0"
  from ctor_Inr[OF this] show "curr_loc this0 = 0" and "cursor_inv this0"
    by (simp_all add: cursor_inv_def)
next
  assume a: "cursor_inv this \<and> send_contract send \<and>
    send_next_chunk C send this sock_fd w = Inr (r, this', w')"
  then have a1: "cursor_inv this" and a2: "send_contract send"
    and a3: "send_next_chunk C send this sock_fd w = Inr (r, this', w')" by simp_all
  from send_next_chunk_preserves[OF a1 a2 a3] show "cursor_inv this'" and "curr_loc this \<le> curr_loc this'" by simp_all
next
  assume a: "cursor_inv this \<and> send_contract send \<and>
    send_chunks n C send this sock_fd w = Inr (rs, this'', w'')"
  then have a1: "cursor_inv this" and a2: "send_contract send"
    and a3: "send_chunks n C send this sock_fd w = Inr (rs, this'', w'')" by simp_all
  from send_chunks_preserves[OF a1 a2 a3] show "cursor_inv this''" and "curr_loc this \<le> curr_loc this''" by simp_all
next
  assume "0 < C"
  then show "(\<exists>s1 w1. send_next_chunk C send this sock_fd w = Inr (0, s1, w1))
         \<longleftrightarrow> curr_loc this = array_length this"
    by (rule returns_zero_iff)
qed

theorem cursor_invariant_witness:
  "ArraySender_ctor payload10 10 = Inr sender10 \<and>
   curr_loc sender10 = 0 \<and> cursor_inv sender10 \<and>
   send_contract (send_accepts 2) \<and>
   send_next_chunk 4 (send_accepts 2) sender10 5 []
     = Inr (2, sender10\<lparr>curr_loc := 2\<rparr>, [[0, 1]]) \<and>
   cursor_inv (sender10\<lparr>curr_loc := 2\<rparr>) \<and>
   curr_loc sender10 \<le> curr_loc (sender10\<lparr>curr_loc := 2\<rparr>) \<and>
   send_chunks 2 4 (send_accepts 2) sender10 5 []
     = Inr ([2, 2], sender10\<lparr>curr_loc := 4\<rparr>, [[0, 1], [2, 3]]) \<and>
   cursor_inv (sender10\<lparr>curr_loc := 4\<rparr>) \<and>
   curr_loc sender10 \<le> curr_loc (sender10\<lparr>curr_loc := 4\<rparr>) \<and>
   (0::size_t) < 4 \<and>
   ((\<exists>s1 w1. send_next_chunk 4 (send_accepts 2) sender10 5 [] = Inr (0, s1, w1))
      \<longleftrightarrow> curr_loc sender10 = array_length sender10)"
proof -
  have h1: "ArraySender_ctor payload10 10 = Inr sender10" by code_simp
  have h2: "cursor_inv sender10" by code_simp
  have h3: "send_contract (send_accepts 2)" by (rule send_contract_send_accepts)
  have h4: "send_next_chunk 4 (send_accepts 2) sender10 5 []
     = Inr (2, sender10\<lparr>curr_loc := 2\<rparr>, [[0, 1]])" by code_simp
  have h5: "send_chunks 2 4 (send_accepts 2) sender10 5 []
     = Inr ([2, 2], sender10\<lparr>curr_loc := 4\<rparr>, [[0, 1], [2, 3]])" by code_simp
  have h6: "(0::size_t) < 4" by simp
  from cursor_invariant[of payload10 10 sender10 sender10 "send_accepts 2" 4 5 "[]" 2
      "sender10\<lparr>curr_loc := 2\<rparr>" "[[0, 1]]" 2 "[2, 2]" "sender10\<lparr>curr_loc := 4\<rparr>"
      "[[0, 1], [2, 3]]"]
    h1 h2 h3 h4 h5 h6
  show ?thesis by blast
qed

subsection \<open>Memory safety of the copy\<close>

text \<open>
  C10.  The constructor over a buffer of \<open>len\<close> bytes establishes both invariants.
  Under them a call copies \<open>n = min (L - cursor) CHUNK_SIZE\<close> bytes, reads the payload
  exactly at the indices \<open>cursor, ..., cursor + n - 1\<close>, all below \<open>L\<close>, writes the first
  \<open>n \<le> CHUNK_SIZE\<close> bytes of the chunk buffer, and never accesses memory out of bounds;
  the invariants still hold after any number of calls on a transport that keeps the
  contract of \<open>send\<close>.
\<close>

theorem chunk_copy_in_bounds:
  "(ArraySender_ctor xs len = Inr this0 \<longrightarrow> cursor_inv this0 \<and> buffer_inv this0) \<and>
   (cursor_inv this \<and> buffer_inv this \<longrightarrow>
      unat (bytes_in_chunk C this)
        = min (length (array this) - unat (curr_loc this)) (unat C) \<and>
      unat (curr_loc this) + unat (bytes_in_chunk C this) \<le> length (array this) \<and>
      unat (bytes_in_chunk C this) \<le> length (replicate (unat C) (0::byte)) \<and>
      chunk C this
        = Some (map (\<lambda>i. array this ! i)
                  [unat (curr_loc this) ..< unat (curr_loc this) + unat (bytes_in_chunk C this)]
                @ replicate (unat C - unat (bytes_in_chunk C this)) 0) \<and>
      send_next_chunk C send this sock_fd w \<noteq> Inl OutOfBounds) \<and>
   (cursor_inv this \<and> buffer_inv this \<and> send_contract send \<and>
    send_chunks n C send this sock_fd w = Inr (rs, this', w') \<longrightarrow>
      cursor_inv this' \<and> buffer_inv this')"
proof (intro conjI impI)
  assume "ArraySender_ctor xs len = Inr this0"
  from ctor_Inr[OF this] show "cursor_inv this0" and "buffer_inv this0"
    by (simp_all add: cursor_inv_def buffer_inv_def)
next
  assume a: "cursor_inv this \<and> buffer_inv this"
  then have inv: "cursor_inv this" "buffer_inv this" by simp_all
  let ?n = "unat (bytes_in_chunk C this)" and ?cur = "unat (curr_loc this)"
  have le: "?cur \<le> unat (array_length this)"
    using inv(1) by (simp add: cursor_inv_def word_le_nat_alt)
  show n: "?n = min (length (array this) - ?cur) (unat C)"
    using unat_bytes_in_chunk[OF inv(1), of C] inv(2) by (simp add: buffer_inv_def)
  with le inv(2) show bound: "?cur + ?n \<le> length (array this)"
    by (simp add: buffer_inv_def)
  from n show "?n \<le> length (replicate (unat C) (0::byte))" by simp
  show c: "chunk C this
        = Some (map (\<lambda>i. array this ! i) [?cur ..< ?cur + ?n] @ replicate (unat C - ?n) 0)"
    using chunk_in_bounds[OF inv, of C] bound by (simp add: map_nth_slice)
  show "send_next_chunk C send this sock_fd w \<noteq> Inl OutOfBounds"
    by (simp add: send_next_chunk_def c Let_def EXIT_FAILURE_def split: prod.splits)
next
  assume a: "cursor_inv this \<and> buffer_inv this \<and> send_contract send \<and>
    send_chunks n C send this sock_fd w = Inr (rs, this', w')"
  then have a1: "cursor_inv this" and a2: "send_contract send"
    and a3: "send_chunks n C send this sock_fd w = Inr (rs, this', w')" by simp_all
  from send_chunks_preserves[OF a1 a2 a3] a show "cursor_inv this'" and "buffer_inv this'" by (simp_all add: buffer_inv_def)
qed

theorem chunk_copy_in_bounds_witness:
  "ArraySender_ctor payload10 10 = Inr sender10 \<and>
   cursor_inv sender10 \<and> buffer_inv sender10 \<and>
   unat (curr_loc sender10) + unat (bytes_in_chunk 4 sender10) \<le> length (array sender10) \<and>
   chunk 4 sender10
     = Some (map (\<lambda>i. array sender10 ! i)
               [unat (curr_loc sender10)
                  ..< unat (curr_loc sender10) + unat (bytes_in_chunk 4 sender10)]
             @ replicate (unat (4::size_t) - unat (bytes_in_chunk 4 sender10)) 0) \<and>
   send_next_chunk 4 (send_accepts 2) sender10 5 [] \<noteq> Inl OutOfBounds \<and>
   send_contract (send_accepts 2) \<and>
   send_chunks 2 4 (send_accepts 2) sender10 5 []
     = Inr ([2, 2], sender10\<lparr>curr_loc := 4\<rparr>, [[0, 1], [2, 3]]) \<and>
   cursor_inv (sender10\<lparr>curr_loc := 4\<rparr>) \<and> buffer_inv (sender10\<lparr>curr_loc := 4\<rparr>)"
proof -
  have h1: "ArraySender_ctor payload10 10 = Inr sender10" by code_simp
  have h2: "cursor_inv sender10" by code_simp
  have h3: "buffer_inv sender10" by code_simp
  have h4: "send_contract (send_accepts 2)" by (rule send_contract_send_accepts)
  have h5: "send_chunks 2 4 (send_accepts 2) sender10 5 []
     = Inr ([2, 2], sender10\<lparr>curr_loc := 4\<rparr>, [[0, 1], [2, 3]])" by code_simp
  from chunk_copy_in_bounds[of payload10 10 sender10 sender10 4 "send_accepts 2" 5 "[]" 2
      "[2, 2]" "sender10\<lparr>curr_loc := 4\<rparr>" "[[0, 1], [2, 3]]"]
    h1 h2 h3 h4 h5
  show ?thesis by blast
qed

section \<open>Properties of the event loop\<close>

lemma hangup_branch:
  assumes "events ev AND EPOLLRDHUP \<noteq> 0"
  shows "handle_event env epoll_fd server_socket (clients, w) ev =
           (case handle_close env
                   (case clients (data_fd ev) of
                      None \<Rightarrow> ConnectedClient_default env
                    | Some c \<Rightarrow> c) epoll_fd w of
              Inl e \<Rightarrow> Inl e
            | Inr (c', w') \<Rightarrow> Inr (clients(data_fd ev := None), w'))"
  using assms
  by (auto simp: subscript_def erase_def split: option.splits sum.splits prod.splits)

text \<open>
  The model runs: the first iteration accepts descriptor 7 and registers it in RECEIVING
  mode for input and hang-up; the second handles its hang-up and removes it.
\<close>

lemma example_accept_then_hangup:
  "(case event_loop 1 spec_env 4 3 world_listening of
      Inl e \<Rightarrow> False
    | Inr (clients, w) \<Rightarrow>
        clients 7 = Some \<lparr>client_fd = 7, state = RECEIVING, sender = None\<rparr> \<and>
        interest w 7 = Some (EPOLLIN OR EPOLLRDHUP)) \<and>
   (case event_loop 2 spec_env 4 3 world_listening of
      Inl e \<Rightarrow> False
    | Inr (clients, w) \<Rightarrow> clients 7 = None \<and> interest w 7 = None)"
  by code_simp

subsection \<open>Write readiness\<close>

text \<open>
  C4.  The specification has the loop call \<open>drain\<close> on a write-readiness event for a
  client in SENDING mode and act on its result, and the comment of the output branch
  (lines 338 to 346) says the response in progress must be continued there.  The body of
  that branch is only the comment.  The code at the failing input: client 7 is in the
  middle of a send (4 of 10 bytes delivered) and an event with \<open>EPOLLOUT\<close> alone arrives
  for it; the loop returns the table and the world as they were, with nothing more
  delivered and the cursor still 4, where the behaviour specified, on a transport that
  accepts every byte, delivers the next chunk and moves the cursor to 8.
\<close>

theorem write_ready_event_sends_nothing:
  "handle_event spec_env 4 3 (clients_sending, world_sending) \<lparr>events = EPOLLOUT, data_fd = 7\<rparr>
     = Inr (clients_sending, world_sending) \<and>
   wire world_sending = [[0, 1, 2, 3]] \<and>
   map_option sender (clients_sending 7) = Some (Some (sender10\<lparr>curr_loc := 4\<rparr>)) \<and>
   wire (snd (spec_write_ready 4 (os_send send_accepts_all) (clients_sending, world_sending) 7))
     = [[0, 1, 2, 3], [4, 5, 6, 7]] \<and>
   map_option sender
       (fst (spec_write_ready 4 (os_send send_accepts_all) (clients_sending, world_sending) 7) 7)
     = Some (Some (sender10\<lparr>curr_loc := 8\<rparr>))"
proof -
  have "EPOLLOUT AND EPOLLRDHUP = 0" "EPOLLOUT AND EPOLLIN = 0" by code_simp+
  then have "handle_event spec_env 4 3 (clients_sending, world_sending)
      \<lparr>events = EPOLLOUT, data_fd = 7\<rparr> = Inr (clients_sending, world_sending)"
    by simp
  moreover have "wire world_sending = [[0, 1, 2, 3]]" by code_simp
  moreover have "map_option sender (clients_sending 7) = Some (Some (sender10\<lparr>curr_loc := 4\<rparr>))"
    by code_simp
  moreover have
    "wire (snd (spec_write_ready 4 (os_send send_accepts_all) (clients_sending, world_sending) 7))
       = [[0, 1, 2, 3], [4, 5, 6, 7]]" by code_simp
  moreover have "map_option sender
       (fst (spec_write_ready 4 (os_send send_accepts_all) (clients_sending, world_sending) 7) 7)
     = Some (Some (sender10\<lparr>curr_loc := 8\<rparr>))" by code_simp
  ultimately show ?thesis by (intro conjI)
qed

subsection \<open>Hang-up\<close>

text \<open>
  C8.  For an event with the hang-up bit \<open>EPOLLRDHUP\<close> on a registered handle, whatever
  the object \<open>c\<close> registered for it (so whatever its mode) and whatever other bits the
  event carries, the loop calls \<open>handle_close\<close> on \<open>c\<close> and nothing else: neither
  \<open>handle_input\<close> nor any sending takes place, the world is the one \<open>handle_close\<close>
  leaves.  When \<open>handle_close\<close> returns, the handle is absent from the table and every
  other entry is as before.
\<close>

theorem hangup_closes_before_read_write:
  assumes "events ev AND EPOLLRDHUP \<noteq> 0" and "clients (data_fd ev) = Some c"
  shows "handle_event env epoll_fd server_socket (clients, w) ev =
           (case handle_close env c epoll_fd w of
              Inl e \<Rightarrow> Inl e
            | Inr (c', w') \<Rightarrow> Inr (clients(data_fd ev := None), w')) \<and>
         (\<forall>clients' w'.
            handle_event env epoll_fd server_socket (clients, w) ev = Inr (clients', w') \<longrightarrow>
              clients' (data_fd ev) = None \<and>
              (\<forall>sock. sock \<noteq> data_fd ev \<longrightarrow> clients' sock = clients sock))"
  using assms hangup_branch[OF assms(1), of env epoll_fd server_socket clients w]
  by (auto split: sum.splits)

theorem hangup_closes_before_read_write_witness:
  "events \<lparr>events = EPOLLRDHUP OR EPOLLIN OR EPOLLOUT, data_fd = 7\<rparr> AND EPOLLRDHUP \<noteq> 0 \<and>
   clients_sending (data_fd \<lparr>events = EPOLLRDHUP OR EPOLLIN OR EPOLLOUT, data_fd = 7\<rparr>)
     = Some \<lparr>client_fd = 7, state = SENDING, sender = Some (sender10\<lparr>curr_loc := 4\<rparr>)\<rparr> \<and>
   handle_event spec_env 4 3 (clients_sending, world_sending)
       \<lparr>events = EPOLLRDHUP OR EPOLLIN OR EPOLLOUT, data_fd = 7\<rparr>
     = Inr (clients_sending(7 := None),
            world_sending\<lparr>interest := (interest world_sending)(7 := None)\<rparr>)"
proof -
  let ?ev = "\<lparr>events = EPOLLRDHUP OR EPOLLIN OR EPOLLOUT, data_fd = 7\<rparr>"
  have h1: "events ?ev AND EPOLLRDHUP \<noteq> 0" by code_simp
  have h2: "clients_sending (data_fd ?ev)
     = Some \<lparr>client_fd = 7, state = SENDING, sender = Some (sender10\<lparr>curr_loc := 4\<rparr>)\<rparr>"
    by (simp add: clients_sending_def)
  from hangup_closes_before_read_write[where clients = clients_sending and env = spec_env
      and epoll_fd = 4 and server_socket = 3 and w = world_sending, OF h1 h2] h1 h2
  show ?thesis by (simp add: spec_env_def spec_handle_close_def)
qed

subsection \<open>Closing a handle that is not registered\<close>



text \<open>A second hang-up for the same handle changes nothing more.\<close>

lemma example_double_hangup:
  "handle_events spec_env 4 3 (clients_sending, world_sending)
     [\<lparr>events = EPOLLRDHUP, data_fd = 7\<rparr>, \<lparr>events = EPOLLRDHUP, data_fd = 7\<rparr>]
   = handle_events spec_env 4 3 (clients_sending, world_sending)
     [\<lparr>events = EPOLLRDHUP, data_fd = 7\<rparr>]"
  by (simp add: spec_env_def spec_handle_close_def subscript_def erase_def EPOLLRDHUP_def
        clients_sending_def world_sending_def)

end
